theory Spec2Isabelle
  imports Main "HOL-Library.Sublist"
begin

section \<open>The note store of \<open>notes_frontend/src/App.js\<close>\<close>

text \<open>
  The component \<open>App\<close> keeps four pieces of React state: the ordered list of notes, the
  id of the selected note (or \<open>null\<close>), the search text and a flag for the sidebar. Its
  handlers replace that state; two derived values (\<open>filteredNotes\<close>, \<open>selectedNote\<close>)
  are recomputed from it. The handlers read two things from outside the program: the
  system clock (\<open>new Date()\<close>, \<open>Date.now()\<close>) and \<open>Math.random()\<close>. The model passes
  every such reading to the handler as an argument, in the order the code makes them.

  Strings are \<open>string\<close>, one character for each code unit of the JavaScript string.
  Which characters \<open>trim\<close> takes for white space and what \<open>toLowerCase\<close> gives are
  tables of the JavaScript engine, not of this program: the model takes both as
  parameters, so that what is proved holds for the engine's own.
  A timestamp is the time value of the \<open>Date\<close> in milliseconds since the epoch; the code
  stores its \<open>toISOString()\<close> rendering, which determines that value and is determined
  by it.
\<close>

subsection \<open>Data\<close>

type_synonym timestamp = int

text \<open>\<open>{ id, title, content, created, updated }\<close> (App.js, line 14).\<close>

record note_rec =
  id_note :: string
  title :: string
  content :: string
  created :: timestamp
  updated :: timestamp

text \<open>The four \<open>useState\<close> cells of \<open>App\<close> (lines 15 to 18).\<close>

record app_state =
  notes_of :: "note_rec list"
  selectedNoteId :: "string option"
  searchQuery :: string
  sidebarOpen :: bool

definition initial_state :: app_state where
  "initial_state =
     \<lparr>notes_of = [], selectedNoteId = None, searchQuery = [], sidebarOpen = True\<rparr>"

text \<open>
  The argument \<open>newFields\<close> of \<open>handleUpdateNote\<close>: an object that may carry a
  \<open>title\<close> and may carry a \<open>content\<close> (the editor passes both).
\<close>

record fields =
  f_title :: "string option"
  f_content :: "string option"

subsection \<open>Identifiers\<close>

text \<open>
  \<open>'id-' + Date.now() + '-' + Math.floor(Math.random()*9999)\<close> (line 10). The two
  numbers are rendered in decimal by the string concatenation. The first argument is the
  reading of \<open>Date.now()\<close>, the second the value of \<open>Math.floor(Math.random()*9999)\<close>,
  a natural number below 9999.
\<close>

definition digit_char :: "nat \<Rightarrow> char" where
  "digit_char d = ''0123456789'' ! d"

fun string_of_nat :: "nat \<Rightarrow> string" where
  "string_of_nat n =
     (if n < 10 then [digit_char n]
      else string_of_nat (n div 10) @ [digit_char (n mod 10)])"

declare string_of_nat.simps [simp del]

definition string_of_int :: "int \<Rightarrow> string" where
  "string_of_int i =
     (if i < 0 then CHR ''-'' # string_of_nat (nat (- i)) else string_of_nat (nat i))"

definition generateId :: "int \<Rightarrow> nat \<Rightarrow> string" where
  "generateId dateNow rnd = ''id-'' @ string_of_int dateNow @ ''-'' @ string_of_nat rnd"

subsection \<open>Derived values\<close>





text \<open>
  \<open>selectedNote\<close> (line 30): \<open>notes.find(n => n.id === selectedNoteId)\<close>, the first note
  whose id is the selected one, or \<open>undefined\<close> (here \<open>None\<close>). A note's id is a string,
  so no note matches the selection \<open>null\<close>.
\<close>

definition selectedNote :: "note_rec list \<Rightarrow> string option \<Rightarrow> note_rec option" where
  "selectedNote ns sel = find (\<lambda>n. Some (id_note n) = sel) ns"

subsection \<open>Handlers\<close>

text \<open>
  \<open>handleCreateNote\<close> (lines 34 to 45). \<open>now\<close> is the reading of \<open>new Date()\<close>,
  \<open>dateNow\<close> the later reading of \<open>Date.now()\<close> inside \<open>generateId\<close>, and \<open>rnd\<close> the
  random number drawn there.
\<close>

definition handleCreateNote :: "timestamp \<Rightarrow> int \<Rightarrow> nat \<Rightarrow> app_state \<Rightarrow> app_state" where
  "handleCreateNote now dateNow rnd st =
     (let n = \<lparr>id_note = generateId dateNow rnd, title = ''Untitled Note'', content = [],
                created = now, updated = now\<rparr>
      in st\<lparr>notes_of := n # notes_of st, selectedNoteId := Some (id_note n)\<rparr>)"

text \<open>
  \<open>{ ...n, ...newFields, updated: new Date().toISOString() }\<close>: the note with the
  supplied fields written over its own, and \<open>updated\<close> set to the clock reading \<open>t\<close>.
\<close>

definition merge_fields :: "note_rec \<Rightarrow> fields \<Rightarrow> timestamp \<Rightarrow> note_rec" where
  "merge_fields n nf t =
     n\<lparr>title := (case f_title nf of None \<Rightarrow> title n | Some x \<Rightarrow> x),
       content := (case f_content nf of None \<Rightarrow> content n | Some x \<Rightarrow> x),
       updated := t\<rparr>"

text \<open>
  The function that \<open>handleUpdateNote\<close> passes to \<open>setNotes\<close> (lines 48 to 52). The
  \<open>map\<close> runs over the notes from the front and reads the clock once for each note
  whose id matches: \<open>clk k\<close> is the \<open>k\<close>-th of these readings, counted from 0.
\<close>

fun update_notes :: "(nat \<Rightarrow> timestamp) \<Rightarrow> string \<Rightarrow> fields \<Rightarrow> note_rec list \<Rightarrow> note_rec list" where
  "update_notes clk i nf [] = []"
| "update_notes clk i nf (n # ns) =
     (if id_note n = i
      then merge_fields n nf (clk 0) # update_notes (\<lambda>k. clk (Suc k)) i nf ns
      else n # update_notes clk i nf ns)"

definition handleUpdateNote ::
    "(nat \<Rightarrow> timestamp) \<Rightarrow> string \<Rightarrow> fields \<Rightarrow> app_state \<Rightarrow> app_state" where
  "handleUpdateNote clk i nf st = st\<lparr>notes_of := update_notes clk i nf (notes_of st)\<rparr>"

text \<open>\<open>handleDeleteNote\<close> (lines 55 to 58).\<close>

definition handleDeleteNote :: "string \<Rightarrow> app_state \<Rightarrow> app_state" where
  "handleDeleteNote i st =
     (let st' = st\<lparr>notes_of := filter (\<lambda>n. id_note n \<noteq> i) (notes_of st)\<rparr>
      in if selectedNoteId st = Some i then st'\<lparr>selectedNoteId := None\<rparr> else st')"

text \<open>\<open>handleSelectNote\<close>, \<open>handleSearchChange\<close> and \<open>handleSidebarToggle\<close> (lines 60 to 70).\<close>

definition handleSelectNote :: "string option \<Rightarrow> app_state \<Rightarrow> app_state" where
  "handleSelectNote i st = st\<lparr>selectedNoteId := i\<rparr>"

definition handleSearchChange :: "string \<Rightarrow> app_state \<Rightarrow> app_state" where
  "handleSearchChange v st = st\<lparr>searchQuery := v\<rparr>"

definition handleSidebarToggle :: "app_state \<Rightarrow> app_state" where
  "handleSidebarToggle st = st\<lparr>sidebarOpen := \<not> sidebarOpen st\<rparr>"

text \<open>
  \<open>NoteEditor.handleSave\<close> (lines 175 to 179), with \<open>onUpdate\<close> as \<open>App\<close> passes it
  (line 93): \<open>sTitle\<close> and \<open>sContent\<close> are the editor's two fields, \<open>n\<close> is the note the
  editor shows.
\<close>

definition handleSave ::
    "(nat \<Rightarrow> timestamp) \<Rightarrow> string \<Rightarrow> string \<Rightarrow> note_rec \<Rightarrow> app_state \<Rightarrow> app_state" where
  "handleSave clk sTitle sContent n st =
     (if sTitle \<noteq> title n \<or> sContent \<noteq> content n
      then handleUpdateNote clk (id_note n) \<lparr>f_title = Some sTitle, f_content = Some sContent\<rparr> st
      else st)"

subsection \<open>A session\<close>

text \<open>
  A session is a run of the handlers from the initial state. The environment is the
  sequence of readings the system clock gives (\<open>clock k\<close> is the \<open>k\<close>-th reading of the
  session, counted from 0) and the sequence of values \<open>Math.floor(Math.random()*9999)\<close>
  takes. A session state carries, next to the state of \<open>App\<close>, how many readings and
  draws have been made so far.
\<close>

datatype event =
    CreateNote
  | UpdateNote string fields
  | DeleteNote string
  | SelectNote "string option"
  | SearchChange string
  | SidebarToggle

record session =
  app :: app_state
  ticks :: nat
  draws :: nat

definition initial_session :: session where
  "initial_session = \<lparr>app = initial_state, ticks = 0, draws = 0\<rparr>"

text \<open>
  \<open>handleCreateNote\<close> reads the clock twice (\<open>new Date()\<close>, then \<open>Date.now()\<close>) and
  draws one random number; \<open>handleUpdateNote\<close> reads the clock once for every note with
  the given id; the other handlers read nothing.
\<close>

fun step :: "(nat \<Rightarrow> timestamp) \<Rightarrow> (nat \<Rightarrow> nat) \<Rightarrow> session \<Rightarrow> event \<Rightarrow> session" where
  "step clock rng s CreateNote =
     \<lparr>app = handleCreateNote (clock (ticks s)) (clock (Suc (ticks s))) (rng (draws s)) (app s),
      ticks = ticks s + 2, draws = Suc (draws s)\<rparr>"
| "step clock rng s (UpdateNote i nf) =
     \<lparr>app = handleUpdateNote (\<lambda>k. clock (ticks s + k)) i nf (app s),
      ticks = ticks s + length (filter (\<lambda>n. id_note n = i) (notes_of (app s))),
      draws = draws s\<rparr>"
| "step clock rng s (DeleteNote i) = s\<lparr>app := handleDeleteNote i (app s)\<rparr>"
| "step clock rng s (SelectNote i) = s\<lparr>app := handleSelectNote i (app s)\<rparr>"
| "step clock rng s (SearchChange v) = s\<lparr>app := handleSearchChange v (app s)\<rparr>"
| "step clock rng s SidebarToggle = s\<lparr>app := handleSidebarToggle (app s)\<rparr>"

definition run :: "(nat \<Rightarrow> timestamp) \<Rightarrow> (nat \<Rightarrow> nat) \<Rightarrow> event list \<Rightarrow> session" where
  "run clock rng evs = foldl (step clock rng) initial_session evs"

subsection \<open>Notions of the specification\<close>

text \<open>
  The number of clock readings \<open>update_notes\<close> has made when it reaches position \<open>k\<close>:
  the number of notes with the given id in front of that position.
\<close>

definition reads_before :: "string \<Rightarrow> note_rec list \<Rightarrow> nat \<Rightarrow> nat" where
  "reads_before i ns k = length (filter (\<lambda>n. id_note n = i) (take k ns))"



text \<open>
  Every note of a session state carries clock readings the session has already made, and
  was not updated before it was created.
\<close>

definition stamped :: "(nat \<Rightarrow> timestamp) \<Rightarrow> session \<Rightarrow> bool" where
  "stamped clock s =
     (\<forall>n\<in>set (notes_of (app s)).
        created n \<le> updated n \<and>
        (\<exists>j < ticks s. created n = clock j) \<and>
        (\<exists>j < ticks s. updated n = clock j))"

subsection \<open>Example values\<close>




definition note_a :: note_rec where
  "note_a = \<lparr>id_note = ''id-5-1'', title = ''Groceries'', content = ''milk, eggs'',
             created = 5, updated = 5\<rparr>"

definition note_b :: note_rec where
  "note_b = \<lparr>id_note = ''id-9-2'', title = ''Untitled Note'', content = [],
             created = 9, updated = 12\<rparr>"

definition example_state :: app_state where
  "example_state =
     \<lparr>notes_of = [note_b, note_a], selectedNoteId = Some ''id-9-2'', searchQuery = [],
      sidebarOpen = True\<rparr>"

section \<open>Properties\<close>

subsection \<open>What \<open>update_notes\<close> does to a list\<close>

lemma update_notes_length: "length (update_notes clk i nf ns) = length ns"
  by (induction ns arbitrary: clk) auto

lemma update_notes_ids: "map id_note (update_notes clk i nf ns) = map id_note ns"
  by (induction ns arbitrary: clk) (auto simp: merge_fields_def)

lemma update_notes_nth:
  "k < length ns \<Longrightarrow>
   update_notes clk i nf ns ! k =
     (if id_note (ns ! k) = i then merge_fields (ns ! k) nf (clk (reads_before i ns k))
      else ns ! k)"
proof (induction ns arbitrary: clk k)
  case Nil
  then show ?case by simp
next
  case (Cons n ns)
  show ?case
  proof (cases k)
    case 0
    then show ?thesis by (simp add: reads_before_def)
  next
    case (Suc j)
    with Cons.prems have "j < length ns" by simp
    from Cons.IH [OF this] Suc show ?thesis by (simp add: reads_before_def)
  qed
qed

lemma update_notes_no_match:
  "\<forall>n\<in>set ns. id_note n \<noteq> i \<Longrightarrow> update_notes clk i nf ns = ns"
  by (induction ns arbitrary: clk) auto

subsection \<open>Creating a note\<close>

text \<open>
  C7. After \<open>handleCreateNote\<close>, in any state: the new note is at index 0 of the
  collection, the notes that were there before follow it in their order, and the
  selected id is the new note's id.
\<close>

theorem create_then_select:
  "let st' = handleCreateNote now dateNow rnd st; n = notes_of st' ! 0 in
     notes_of st' = n # notes_of st \<and>
     selectedNoteId st' = Some (id_note n) \<and>
     id_note n = generateId dateNow rnd"
  by (simp add: handleCreateNote_def Let_def)

text \<open>
  C3, as the code has it. From a state with no notes, \<open>handleCreateNote\<close> at time
  \<open>T\<close> gives a collection of exactly one note, with title \<open>Untitled Note\<close>, empty
  content, and \<open>created\<close> and \<open>updated\<close> both \<open>T\<close>; the selected id is that note's id.
\<close>

theorem create_from_empty:
  assumes "notes_of st = []"
  shows "notes_of (handleCreateNote T dateNow rnd st) =
           [\<lparr>id_note = generateId dateNow rnd, title = ''Untitled Note'', content = [],
             created = T, updated = T\<rparr>] \<and>
         selectedNoteId (handleCreateNote T dateNow rnd st) = Some (generateId dateNow rnd)"
  using assms by (simp add: handleCreateNote_def Let_def)

theorem create_from_empty_witness:
  "notes_of initial_state = [] \<and>
   notes_of (handleCreateNote 1000 1001 42 initial_state) =
     [\<lparr>id_note = ''id-1001-42'', title = ''Untitled Note'', content = [],
       created = 1000, updated = 1000\<rparr>] \<and>
   selectedNoteId (handleCreateNote 1000 1001 42 initial_state) = Some ''id-1001-42''"
proof -
  have e: "notes_of initial_state = []" by (simp add: initial_state_def)
  have g: "generateId 1001 42 = ''id-1001-42''"
    by (simp add: generateId_def string_of_int_def string_of_nat.simps digit_char_def)
  from create_from_empty [OF e, of 1000 1001 42] e g show ?thesis by simp
qed

text \<open>
  C3 as it is written asks for the empty title. The note created from the initial state
  does not have it.
\<close>

theorem create_title_counterexample:
  "title (notes_of (handleCreateNote 1000 1001 42 initial_state) ! 0) \<noteq> ''''"
  by (simp add: handleCreateNote_def initial_state_def)

subsection \<open>Updating a note\<close>

text \<open>
  C10. \<open>handleUpdateNote\<close> keeps the length of the collection and the order of the ids,
  leaves every note with another id as it was, and leaves the selection alone.
\<close>

theorem update_keeps_shape:
  "let st' = handleUpdateNote clk i nf st in
     length (notes_of st') = length (notes_of st) \<and>
     map id_note (notes_of st') = map id_note (notes_of st) \<and>
     (\<forall>k < length (notes_of st).
        id_note (notes_of st ! k) \<noteq> i \<longrightarrow> notes_of st' ! k = notes_of st ! k) \<and>
     selectedNoteId st' = selectedNoteId st"
  by (simp add: handleUpdateNote_def update_notes_length update_notes_ids update_notes_nth)

theorem update_keeps_shape_witness:
  "length (notes_of (handleUpdateNote (\<lambda>k. 20) ''id-5-1''
       \<lparr>f_title = Some ''Shopping'', f_content = None\<rparr> example_state)) = 2 \<and>
   map id_note (notes_of (handleUpdateNote (\<lambda>k. 20) ''id-5-1''
       \<lparr>f_title = Some ''Shopping'', f_content = None\<rparr> example_state)) = [''id-9-2'', ''id-5-1''] \<and>
   id_note (notes_of example_state ! 0) \<noteq> ''id-5-1'' \<and>
   notes_of (handleUpdateNote (\<lambda>k. 20) ''id-5-1''
       \<lparr>f_title = Some ''Shopping'', f_content = None\<rparr> example_state) ! 0 = note_b \<and>
   notes_of (handleUpdateNote (\<lambda>k. 20) ''id-5-1''
       \<lparr>f_title = Some ''Shopping'', f_content = None\<rparr> example_state) ! 1 =
     note_a\<lparr>title := ''Shopping'', updated := 20\<rparr>"
  using update_keeps_shape [of "\<lambda>k. 20" "''id-5-1''"
      "\<lparr>f_title = Some ''Shopping'', f_content = None\<rparr>" example_state]
  by (simp add: Let_def example_state_def note_a_def note_b_def handleUpdateNote_def
      merge_fields_def)

text \<open>
  C1, as the code has it. \<open>handleUpdateNote\<close> with an id that no note has returns the
  state unchanged. The editor's \<open>handleSave\<close> returns the state unchanged when its two
  fields are the note's title and content: there it does not call \<open>handleUpdateNote\<close>.
  \<open>handleUpdateNote\<close> itself sets \<open>updated\<close> of every note with the given id to the
  clock reading, whatever the fields are.
\<close>

theorem update_noop_cases:
  "((\<forall>n\<in>set (notes_of st). id_note n \<noteq> i) \<longrightarrow> handleUpdateNote clk i nf st = st) \<and>
   handleSave clk (title n) (content n) n st = st \<and>
   (k < length (notes_of st) \<and> id_note (notes_of st ! k) = i \<longrightarrow>
      updated (notes_of (handleUpdateNote clk i nf st) ! k) =
        clk (reads_before i (notes_of st) k))"
  by (simp add: handleUpdateNote_def handleSave_def update_notes_no_match update_notes_nth
      merge_fields_def)

theorem update_noop_cases_witness:
  "id_note note_b \<noteq> ''id-0-0'' \<and> id_note note_a \<noteq> ''id-0-0'' \<and>
   handleUpdateNote (\<lambda>k. 20) ''id-0-0'' \<lparr>f_title = Some ''X'', f_content = None\<rparr> example_state
     = example_state \<and>
   handleSave (\<lambda>k. 20) ''Groceries'' ''milk, eggs'' note_a example_state = example_state \<and>
   id_note (notes_of example_state ! 1) = ''id-5-1'' \<and>
   updated (notes_of (handleUpdateNote (\<lambda>k. 20) ''id-5-1''
      \<lparr>f_title = Some ''Groceries'', f_content = Some ''milk, eggs''\<rparr> example_state) ! 1) = 20"
proof -
  have h1: "id_note note_b \<noteq> ''id-0-0''" and h2: "id_note note_a \<noteq> ''id-0-0''"
    by (simp_all add: note_a_def note_b_def)
  then have h: "\<forall>n\<in>set (notes_of example_state). id_note n \<noteq> ''id-0-0''"
    by (simp add: example_state_def)
  have s: "title note_a = ''Groceries''" "content note_a = ''milk, eggs''"
    by (simp_all add: note_a_def)
  have m: "1 < length (notes_of example_state) \<and> id_note (notes_of example_state ! 1) = ''id-5-1''"
    by (simp add: example_state_def note_a_def)
  have r: "reads_before ''id-5-1'' (notes_of example_state) 1 = 0"
    by (simp add: reads_before_def example_state_def note_b_def)
  note t1 = update_noop_cases [of example_state "''id-0-0''" "\<lambda>k. 20"
      "\<lparr>f_title = Some ''X'', f_content = None\<rparr>" note_a 1]
  note t2 = update_noop_cases [of example_state "''id-5-1''" "\<lambda>k. 20"
      "\<lparr>f_title = Some ''Groceries'', f_content = Some ''milk, eggs''\<rparr>" note_a 1]
  have a: "handleUpdateNote (\<lambda>k. 20) ''id-0-0''
      \<lparr>f_title = Some ''X'', f_content = None\<rparr> example_state = example_state"
    using t1 [THEN conjunct1] h by (rule mp)
  have b: "handleSave (\<lambda>k. 20) ''Groceries'' ''milk, eggs'' note_a example_state = example_state"
    using t1 [THEN conjunct2, THEN conjunct1] by (simp only: s)
  have "updated (notes_of (handleUpdateNote (\<lambda>k. 20) ''id-5-1''
      \<lparr>f_title = Some ''Groceries'', f_content = Some ''milk, eggs''\<rparr> example_state) ! 1) =
      (\<lambda>k. 20) (reads_before ''id-5-1'' (notes_of example_state) 1)"
    using t2 [THEN conjunct2, THEN conjunct2] m by (rule mp)
  then have c: "updated (notes_of (handleUpdateNote (\<lambda>k. 20) ''id-5-1''
      \<lparr>f_title = Some ''Groceries'', f_content = Some ''milk, eggs''\<rparr> example_state) ! 1) = 20"
    by simp
  from h1 h2 a b m [THEN conjunct2] c show ?thesis by (intro conjI)
qed

text \<open>
  C1 as it is written fails: \<open>handleUpdateNote\<close> called with the title and the content
  the note already has changes the note's \<open>updated\<close> from 5 to the clock reading 20.
\<close>

theorem update_same_fields_counterexample:
  "title (notes_of example_state ! 1) = ''Groceries'' \<and>
   content (notes_of example_state ! 1) = ''milk, eggs'' \<and>
   id_note (notes_of example_state ! 1) = ''id-5-1'' \<and>
   updated (notes_of example_state ! 1) = 5 \<and>
   updated (notes_of (handleUpdateNote (\<lambda>k. 20) ''id-5-1''
      \<lparr>f_title = Some ''Groceries'', f_content = Some ''milk, eggs''\<rparr> example_state) ! 1) = 20 \<and>
   handleUpdateNote (\<lambda>k. 20) ''id-5-1''
      \<lparr>f_title = Some ''Groceries'', f_content = Some ''milk, eggs''\<rparr> example_state
     \<noteq> example_state"
  by (simp add: example_state_def note_a_def note_b_def handleUpdateNote_def merge_fields_def)

subsection \<open>Sessions keep their notes stamped\<close>

lemma update_notes_elem:
  "n' \<in> set (update_notes clk i nf ns) \<Longrightarrow>
   n' \<in> set ns \<or>
   (\<exists>n\<in>set ns. \<exists>m < length (filter (\<lambda>n. id_note n = i) ns). n' = merge_fields n nf (clk m))"
proof (induction ns arbitrary: clk)
  case Nil
  then show ?case by simp
next
  case (Cons a ns)
  show ?case
  proof (cases "id_note a = i")
    case True
    with Cons.prems consider "n' = merge_fields a nf (clk 0)"
      | "n' \<in> set (update_notes (\<lambda>k. clk (Suc k)) i nf ns)" by auto
    then show ?thesis
    proof cases
      case 1
      with True show ?thesis by auto
    next
      case 2
      from Cons.IH [OF this] consider "n' \<in> set ns"
        | n m where "n \<in> set ns" "m < length (filter (\<lambda>n. id_note n = i) ns)"
            "n' = merge_fields n nf (clk (Suc m))" by blast
      then show ?thesis
      proof cases
        case 1
        then show ?thesis by simp
      next
        case 2
        with True have "n \<in> set (a # ns)"
          "Suc m < length (filter (\<lambda>n. id_note n = i) (a # ns))" by simp_all
        with 2(3) show ?thesis by blast
      qed
    qed
  next
    case False
    with Cons.prems consider "n' = a" | "n' \<in> set (update_notes clk i nf ns)" by auto
    then show ?thesis
    proof cases
      case 1
      then show ?thesis by simp
    next
      case 2
      from Cons.IH [OF this] False show ?thesis by auto
    qed
  qed
qed

lemma stamped_step:
  assumes m: "mono clock" and inv: "stamped clock s"
  shows "stamped clock (step clock rng s e)"
proof (cases e)
  case CreateNote
  let ?new = "\<lparr>id_note = generateId (clock (Suc (ticks s))) (rng (draws s)),
      title = ''Untitled Note'', content = [], created = clock (ticks s),
      updated = clock (ticks s)\<rparr>"
  have t: "ticks (step clock rng s e) = ticks s + 2" by (simp add: CreateNote)
  show ?thesis
    unfolding stamped_def
  proof
    fix n' assume "n' \<in> set (notes_of (app (step clock rng s e)))"
    then consider "n' = ?new" | "n' \<in> set (notes_of (app s))"
      by (auto simp: CreateNote handleCreateNote_def Let_def)
    then show "created n' \<le> updated n' \<and>
        (\<exists>j < ticks (step clock rng s e). created n' = clock j) \<and>
        (\<exists>j < ticks (step clock rng s e). updated n' = clock j)"
    proof cases
      case 1
      have "ticks s < ticks (step clock rng s e)" by (simp add: t)
      with 1 show ?thesis by auto
    next
      case 2
      with inv obtain j1 j2 where "created n' \<le> updated n'" "j1 < ticks s" "created n' = clock j1"
        "j2 < ticks s" "updated n' = clock j2" unfolding stamped_def by blast
      moreover have "ticks s \<le> ticks (step clock rng s e)" by (simp add: t)
      ultimately show ?thesis by (meson less_le_trans)
    qed
  qed
next
  case (UpdateNote i nf)
  let ?c = "length (filter (\<lambda>n. id_note n = i) (notes_of (app s)))"
  show ?thesis
    unfolding stamped_def
  proof
    fix n' assume "n' \<in> set (notes_of (app (step clock rng s e)))"
    then have "n' \<in> set (update_notes (\<lambda>k. clock (ticks s + k)) i nf (notes_of (app s)))"
      by (simp add: UpdateNote handleUpdateNote_def)
    from update_notes_elem [OF this]
    consider "n' \<in> set (notes_of (app s))"
      | n r where "n \<in> set (notes_of (app s))" "r < ?c"
          "n' = merge_fields n nf (clock (ticks s + r))" by blast
    then show "created n' \<le> updated n' \<and>
        (\<exists>j < ticks (step clock rng s e). created n' = clock j) \<and>
        (\<exists>j < ticks (step clock rng s e). updated n' = clock j)"
    proof cases
      case 1
      with inv obtain j1 j2 where "created n' \<le> updated n'" "j1 < ticks s" "created n' = clock j1"
        "j2 < ticks s" "updated n' = clock j2" unfolding stamped_def by blast
      moreover have "ticks s \<le> ticks (step clock rng s e)" by (simp add: UpdateNote)
      ultimately show ?thesis by (meson less_le_trans)
    next
      case 2
      with inv obtain j where j: "j < ticks s" "created n = clock j"
        unfolding stamped_def by blast
      from j(1) have "j \<le> ticks s + r" by simp
      with m have "clock j \<le> clock (ticks s + r)" by (rule monoD)
      with j 2 have a: "created n' \<le> updated n'" by (simp add: merge_fields_def)
      from j 2 have b: "\<exists>j < ticks (step clock rng s e). created n' = clock j"
        by (auto simp: UpdateNote merge_fields_def intro!: exI [of _ j])
      from 2 have c: "\<exists>j < ticks (step clock rng s e). updated n' = clock j"
        by (auto simp: UpdateNote merge_fields_def intro!: exI [of _ "ticks s + r"])
      from a b c show ?thesis by blast
    qed
  qed
next
  case (DeleteNote i)
  with inv show ?thesis
    by (auto simp: stamped_def handleDeleteNote_def Let_def)
next
  case (SelectNote i)
  with inv show ?thesis by (simp add: stamped_def handleSelectNote_def)
next
  case (SearchChange v)
  with inv show ?thesis by (simp add: stamped_def handleSearchChange_def)
next
  case SidebarToggle
  with inv show ?thesis by (simp add: stamped_def handleSidebarToggle_def)
qed

lemma run_snoc: "run clock rng (evs @ [e]) = step clock rng (run clock rng evs) e"
  by (simp add: run_def)

lemma stamped_run: "mono clock \<Longrightarrow> stamped clock (run clock rng evs)"
proof (induction evs rule: rev_induct)
  case Nil
  show ?case by (simp add: run_def stamped_def initial_session_def initial_state_def)
next
  case (snoc e evs)
  then show ?case by (simp add: run_snoc stamped_step)
qed

lemma mono_int: "mono (\<lambda>k. int k)"
  by (simp add: mono_def)

lemmas eval_session =
  run_def initial_session_def initial_state_def handleCreateNote_def handleUpdateNote_def
  handleDeleteNote_def handleSelectNote_def merge_fields_def generateId_def string_of_int_def
  string_of_nat.simps digit_char_def Let_def

text \<open>
  C8. With a monotone clock, in the state after any sequence of events from the initial
  state, every note has \<open>created \<le> updated\<close>.
\<close>

theorem updated_not_before_created:
  assumes "mono clock"
  shows "\<forall>n\<in>set (notes_of (app (run clock rng evs))). created n \<le> updated n"
  using stamped_run [OF assms, of rng evs] by (simp add: stamped_def)

theorem updated_not_before_created_witness:
  "mono (\<lambda>k. int k) \<and>
   notes_of (app (run (\<lambda>k. int k) (\<lambda>k. 7)
     [CreateNote, UpdateNote ''id-1-7'' \<lparr>f_title = Some ''Groceries'', f_content = None\<rparr>])) =
     [\<lparr>id_note = ''id-1-7'', title = ''Groceries'', content = [], created = 0, updated = 2\<rparr>] \<and>
   created \<lparr>id_note = ''id-1-7'', title = ''Groceries'', content = [], created = 0, updated = 2\<rparr>
     \<le> updated \<lparr>id_note = ''id-1-7'', title = ''Groceries'', content = [], created = 0,
         updated = 2\<rparr>"
proof -
  let ?evs = "[CreateNote, UpdateNote ''id-1-7'' \<lparr>f_title = Some ''Groceries'', f_content = None\<rparr>]"
  let ?n = "\<lparr>id_note = ''id-1-7'', title = ''Groceries'', content = [], created = 0, updated = 2\<rparr>"
  have e: "notes_of (app (run (\<lambda>k. int k) (\<lambda>k. 7) ?evs)) = [?n]"
    by (simp add: eval_session)
  from updated_not_before_created [OF mono_int, of "\<lambda>k. 7" ?evs]
  have "\<forall>n\<in>set [?n]. created n \<le> updated n" by (simp only: e)
  then have "created ?n \<le> updated ?n" by simp
  with mono_int e show ?thesis by (intro conjI)
qed

text \<open>
  C6, as the code has it. \<open>handleUpdateNote\<close> on a collection with a note of the given
  id: that note gets the supplied title (its own if none is supplied) and the supplied
  content (its own if none is supplied), keeps its id and \<open>created\<close>, and gets the clock
  reading as \<open>updated\<close>. In every state of a session with a monotone clock that reading
  is not before the note's earlier \<open>updated\<close>.
\<close>

theorem update_commits_change:
  "(k < length (notes_of st) \<and> id_note (notes_of st ! k) = i \<longrightarrow>
      (let n = notes_of st ! k; n' = notes_of (handleUpdateNote clk i nf st) ! k in
         title n' = (case f_title nf of None \<Rightarrow> title n | Some x \<Rightarrow> x) \<and>
         content n' = (case f_content nf of None \<Rightarrow> content n | Some x \<Rightarrow> x) \<and>
         id_note n' = id_note n \<and> created n' = created n \<and>
         updated n' = clk (reads_before i (notes_of st) k))) \<and>
   (mono clock \<and> j < length (notes_of (app (run clock rng evs))) \<and>
      id_note (notes_of (app (run clock rng evs)) ! j) = i \<longrightarrow>
      updated (notes_of (app (run clock rng evs)) ! j) \<le>
        updated (notes_of (app (step clock rng (run clock rng evs) (UpdateNote i nf))) ! j))"
proof (intro conjI impI)
  assume "k < length (notes_of st) \<and> id_note (notes_of st ! k) = i"
  then show "let n = notes_of st ! k; n' = notes_of (handleUpdateNote clk i nf st) ! k in
         title n' = (case f_title nf of None \<Rightarrow> title n | Some x \<Rightarrow> x) \<and>
         content n' = (case f_content nf of None \<Rightarrow> content n | Some x \<Rightarrow> x) \<and>
         id_note n' = id_note n \<and> created n' = created n \<and>
         updated n' = clk (reads_before i (notes_of st) k)"
    by (simp add: handleUpdateNote_def update_notes_nth merge_fields_def)
next
  let ?s = "run clock rng evs"
  assume a: "mono clock \<and> j < length (notes_of (app ?s)) \<and> id_note (notes_of (app ?s) ! j) = i"
  then have "stamped clock ?s" by (simp add: stamped_run)
  moreover from a have "notes_of (app ?s) ! j \<in> set (notes_of (app ?s))" by simp
  ultimately obtain r where r: "r < ticks ?s" "updated (notes_of (app ?s) ! j) = clock r"
    unfolding stamped_def by blast
  from a have "updated (notes_of (app (step clock rng ?s (UpdateNote i nf))) ! j) =
      clock (ticks ?s + reads_before i (notes_of (app ?s)) j)"
    by (simp add: handleUpdateNote_def update_notes_nth merge_fields_def)
  moreover from r(1) have "r \<le> ticks ?s + reads_before i (notes_of (app ?s)) j" by simp
  with a have "clock r \<le> clock (ticks ?s + reads_before i (notes_of (app ?s)) j)"
    by (blast intro: monoD)
  ultimately show "updated (notes_of (app ?s) ! j) \<le>
      updated (notes_of (app (step clock rng ?s (UpdateNote i nf))) ! j)"
    using r(2) by simp
qed

theorem update_commits_change_witness:
  "id_note (notes_of example_state ! 1) = ''id-5-1'' \<and> title (notes_of example_state ! 1) = ''Groceries'' \<and>
   notes_of (handleUpdateNote (\<lambda>k. 20) ''id-5-1'' \<lparr>f_title = Some ''Shopping'', f_content = None\<rparr>
       example_state) ! 1 =
     \<lparr>id_note = ''id-5-1'', title = ''Shopping'', content = ''milk, eggs'', created = 5,
       updated = 20\<rparr> \<and>
   mono (\<lambda>k. int k) \<and>
   id_note (notes_of (app (run (\<lambda>k. int k) (\<lambda>k. 7) [CreateNote])) ! 0) = ''id-1-7'' \<and>
   updated (notes_of (app (run (\<lambda>k. int k) (\<lambda>k. 7) [CreateNote])) ! 0) = 0 \<and>
   updated (notes_of (app (step (\<lambda>k. int k) (\<lambda>k. 7) (run (\<lambda>k. int k) (\<lambda>k. 7) [CreateNote])
       (UpdateNote ''id-1-7'' \<lparr>f_title = Some ''Shopping'', f_content = None\<rparr>))) ! 0) = 2 \<and>
   updated (notes_of (app (run (\<lambda>k. int k) (\<lambda>k. 7) [CreateNote])) ! 0) \<le>
     updated (notes_of (app (step (\<lambda>k. int k) (\<lambda>k. 7) (run (\<lambda>k. int k) (\<lambda>k. 7) [CreateNote])
       (UpdateNote ''id-1-7'' \<lparr>f_title = Some ''Shopping'', f_content = None\<rparr>))) ! 0)"
proof -
  let ?nf = "\<lparr>f_title = Some ''Shopping'', f_content = None\<rparr>"
  let ?s = "run (\<lambda>k. int k) (\<lambda>k. 7) [CreateNote]"
  note t = update_commits_change [of 1 example_state "''id-5-1''" "\<lambda>k. 20" ?nf
      "\<lambda>k. int k" 0 "\<lambda>k. 7" "[CreateNote]"]
  note u = update_commits_change [of 0 example_state "''id-1-7''" "\<lambda>k. 20" ?nf
      "\<lambda>k. int k" 0 "\<lambda>k. 7" "[CreateNote]"]
  have p: "1 < length (notes_of example_state) \<and> id_note (notes_of example_state ! 1) = ''id-5-1''"
    by (simp add: example_state_def note_a_def)
  have p': "title (notes_of example_state ! 1) = ''Groceries''"
    by (simp add: example_state_def note_a_def)
  have q: "notes_of (handleUpdateNote (\<lambda>k. 20) ''id-5-1'' ?nf example_state) ! 1 =
     \<lparr>id_note = ''id-5-1'', title = ''Shopping'', content = ''milk, eggs'', created = 5,
       updated = 20\<rparr>"
    using t [THEN conjunct1, THEN mp, OF p]
    by (simp add: Let_def example_state_def note_a_def note_b_def handleUpdateNote_def
        merge_fields_def)
  have h: "mono (\<lambda>k. int k) \<and> 0 < length (notes_of (app ?s)) \<and>
      id_note (notes_of (app ?s) ! 0) = ''id-1-7''"
    by (simp add: mono_int eval_session)
  have v0: "updated (notes_of (app ?s) ! 0) = 0" by (simp add: eval_session)
  have v1: "updated (notes_of (app (step (\<lambda>k. int k) (\<lambda>k. 7) ?s (UpdateNote ''id-1-7'' ?nf))) ! 0) = 2"
    by (simp add: eval_session)
  note le = u [THEN conjunct2, THEN mp, OF h]
  from p [THEN conjunct2] p' q mono_int h [THEN conjunct2, THEN conjunct2] v0 v1 le
  show ?thesis by (intro conjI)
qed

text \<open>
  C6 as it is written fails: \<open>handleUpdateNote\<close> writes the clock reading and does not
  look at the note's \<open>updated\<close>. A note with \<open>updated\<close> 12 that is given a new title at
  the clock reading 10 has \<open>updated\<close> 10 afterwards.
\<close>

theorem update_earlier_reading_counterexample:
  "id_note (notes_of example_state ! 0) = ''id-9-2'' \<and>
   title (notes_of example_state ! 0) = ''Untitled Note'' \<and>
   updated (notes_of example_state ! 0) = 12 \<and>
   title (notes_of (handleUpdateNote (\<lambda>k. 10) ''id-9-2''
      \<lparr>f_title = Some ''X'', f_content = None\<rparr> example_state) ! 0) = ''X'' \<and>
   updated (notes_of (handleUpdateNote (\<lambda>k. 10) ''id-9-2''
      \<lparr>f_title = Some ''X'', f_content = None\<rparr> example_state) ! 0) = 10 \<and>
   \<not> updated (notes_of example_state ! 0) \<le>
       updated (notes_of (handleUpdateNote (\<lambda>k. 10) ''id-9-2''
         \<lparr>f_title = Some ''X'', f_content = None\<rparr> example_state) ! 0)"
  by (simp add: example_state_def note_a_def note_b_def handleUpdateNote_def merge_fields_def)

subsection \<open>Deleting a note\<close>

text \<open>
  C5, as the code has it. \<open>handleDeleteNote\<close> removes every note with the given id and
  keeps the others in their order. If the given id is the selected one, the selection
  becomes \<open>null\<close>, otherwise the selection stays. If no note has the given id, the
  collection stays as it was.
\<close>

theorem delete_and_selection:
  "let st' = handleDeleteNote i st in
     notes_of st' = filter (\<lambda>n. id_note n \<noteq> i) (notes_of st) \<and>
     (\<forall>n\<in>set (notes_of st'). id_note n \<noteq> i) \<and>
     (selectedNoteId st = Some i \<longrightarrow> selectedNoteId st' = None) \<and>
     (selectedNoteId st \<noteq> Some i \<longrightarrow> selectedNoteId st' = selectedNoteId st) \<and>
     ((\<forall>n\<in>set (notes_of st). id_note n \<noteq> i) \<longrightarrow> notes_of st' = notes_of st)"
  by (simp add: handleDeleteNote_def Let_def)

theorem delete_and_selection_witness:
  "selectedNoteId example_state = Some ''id-9-2'' \<and>
   notes_of (handleDeleteNote ''id-9-2'' example_state) = [note_a] \<and>
   selectedNoteId (handleDeleteNote ''id-9-2'' example_state) = None \<and>
   selectedNoteId example_state \<noteq> Some ''id-5-1'' \<and>
   notes_of (handleDeleteNote ''id-5-1'' example_state) = [note_b] \<and>
   selectedNoteId (handleDeleteNote ''id-5-1'' example_state) = Some ''id-9-2'' \<and>
   id_note note_b \<noteq> ''id-0-0'' \<and> id_note note_a \<noteq> ''id-0-0'' \<and>
   notes_of (handleDeleteNote ''id-0-0'' example_state) = notes_of example_state \<and>
   selectedNoteId (handleDeleteNote ''id-0-0'' example_state) = Some ''id-9-2''"
  using delete_and_selection [of "''id-9-2''" example_state]
    delete_and_selection [of "''id-5-1''" example_state]
    delete_and_selection [of "''id-0-0''" example_state]
  by (simp add: Let_def example_state_def note_a_def note_b_def)

text \<open>
  C5 as it is written fails where the selected id belongs to no note: after
  \<open>handleSelectNote\<close> with an id that no note has, \<open>handleDeleteNote\<close> with that id
  clears the selection.
\<close>

theorem delete_dangling_selection_counterexample:
  "notes_of (handleSelectNote (Some ''id-0-0'') initial_state) = [] \<and>
   selectedNoteId (handleSelectNote (Some ''id-0-0'') initial_state) = Some ''id-0-0'' \<and>
   selectedNoteId (handleDeleteNote ''id-0-0'' (handleSelectNote (Some ''id-0-0'') initial_state))
     = None"
  by (simp add: handleSelectNote_def handleDeleteNote_def initial_state_def)

subsection \<open>The selected note\<close>

text \<open>
  C9. \<open>selectedNote\<close> has a value for every collection and every selection: \<open>None\<close>
  for the empty collection, for the selection \<open>null\<close> and when no note has the selected
  id; otherwise the first note with the selected id, which is the only one when ids are
  not repeated.
\<close>

theorem resolve_active_note:
  "selectedNote [] sel = None \<and>
   selectedNote ns None = None \<and>
   ((\<forall>n\<in>set ns. Some (id_note n) \<noteq> sel) \<longleftrightarrow> selectedNote ns sel = None) \<and>
   (\<forall>n. selectedNote ns sel = Some n \<longleftrightarrow>
      (\<exists>k < length ns. ns ! k = n \<and> Some (id_note n) = sel \<and>
         (\<forall>j < k. Some (id_note (ns ! j)) \<noteq> sel))) \<and>
   (\<forall>n\<in>set ns. Some (id_note n) = sel \<and> (\<forall>m\<in>set ns. id_note m = id_note n \<longrightarrow> m = n)
      \<longrightarrow> selectedNote ns sel = Some n)"
proof (intro conjI)
  show "selectedNote [] sel = None" by (simp add: selectedNote_def)
  show "selectedNote ns None = None" by (simp add: selectedNote_def find_None_iff)
  show "(\<forall>n\<in>set ns. Some (id_note n) \<noteq> sel) \<longleftrightarrow> selectedNote ns sel = None"
    by (auto simp: selectedNote_def find_None_iff)
  show "\<forall>n. selectedNote ns sel = Some n \<longleftrightarrow>
      (\<exists>k < length ns. ns ! k = n \<and> Some (id_note n) = sel \<and>
         (\<forall>j < k. Some (id_note (ns ! j)) \<noteq> sel))"
    by (auto simp: selectedNote_def find_Some_iff)
  show "\<forall>n\<in>set ns. Some (id_note n) = sel \<and> (\<forall>m\<in>set ns. id_note m = id_note n \<longrightarrow> m = n)
      \<longrightarrow> selectedNote ns sel = Some n"
  proof (intro ballI impI)
    fix n assume n: "n \<in> set ns"
      and h: "Some (id_note n) = sel \<and> (\<forall>m\<in>set ns. id_note m = id_note n \<longrightarrow> m = n)"
    from n h have "selectedNote ns sel \<noteq> None"
      by (auto simp: selectedNote_def find_None_iff)
    then obtain m where m: "selectedNote ns sel = Some m" by blast
    then have "m \<in> set ns" "Some (id_note m) = sel"
      by (auto simp: selectedNote_def find_Some_iff)
    with h have "m = n" by auto
    with m show "selectedNote ns sel = Some n" by simp
  qed
qed

theorem resolve_active_note_witness:
  "selectedNote [] (Some ''id-5-1'') = None \<and>
   selectedNote [note_b, note_a] None = None \<and>
   Some (id_note note_b) \<noteq> Some ''id-0-0'' \<and> Some (id_note note_a) \<noteq> Some ''id-0-0'' \<and>
   selectedNote [note_b, note_a] (Some ''id-0-0'') = None \<and>
   Some (id_note note_a) = Some ''id-5-1'' \<and>
   selectedNote [note_b, note_a] (Some ''id-5-1'') = Some note_a"
proof -
  note t0 = resolve_active_note [of "Some ''id-5-1''" "[note_b, note_a]"]
  note t1 = resolve_active_note [of "Some ''id-0-0''" "[note_b, note_a]"]
  have a: "Some (id_note note_b) \<noteq> Some ''id-0-0''" "Some (id_note note_a) \<noteq> Some ''id-0-0''"
    by (simp_all add: note_a_def note_b_def)
  then have "\<forall>n\<in>set [note_b, note_a]. Some (id_note n) \<noteq> Some ''id-0-0''" by simp
  with t1 have b: "selectedNote [note_b, note_a] (Some ''id-0-0'') = None" by blast
  have c: "Some (id_note note_a) = Some ''id-5-1''" by (simp add: note_a_def)
  have u: "\<forall>m\<in>set [note_b, note_a]. id_note m = id_note note_a \<longrightarrow> m = note_a"
    by (simp add: note_a_def note_b_def)
  have "note_a \<in> set [note_b, note_a]" by simp
  with t0 c u have d: "selectedNote [note_b, note_a] (Some ''id-5-1'') = Some note_a" by blast
  from t0 have e: "selectedNote [] (Some ''id-5-1'') = None"
    and f: "selectedNote [note_b, note_a] None = None" by blast+
  from e f a b c d show ?thesis by (intro conjI)
qed

subsection \<open>The filtered notes\<close>








subsection \<open>Identifiers\<close>

text \<open>
  Two ids are the same exactly when they come from the same reading of \<open>Date.now()\<close>
  and the same random number.
\<close>

lemma digit_char_inj: "a < 10 \<Longrightarrow> b < 10 \<Longrightarrow> digit_char a = digit_char b \<Longrightarrow> a = b"
proof -
  assume "a < 10" "b < 10" "digit_char a = digit_char b"
  moreover have "distinct ''0123456789''" by simp
  moreover have "length ''0123456789'' = 10" by simp
  ultimately show "a = b"
    unfolding digit_char_def by (metis nth_eq_iff_index_eq)
qed

lemma digit_char_not_minus: "d < 10 \<Longrightarrow> digit_char d \<noteq> CHR ''-''"
proof -
  assume "d < 10"
  then have "digit_char d \<in> set ''0123456789''"
    unfolding digit_char_def by (intro nth_mem) simp
  then show ?thesis by auto
qed

lemma string_of_nat_not_Nil: "string_of_nat n \<noteq> []"
  by (subst string_of_nat.simps) simp

lemma string_of_nat_no_minus: "CHR ''-'' \<notin> set (string_of_nat n)"
proof (induction n rule: string_of_nat.induct)
  case (1 n)
  show ?case
  proof (cases "n < 10")
    case True
    then show ?thesis
      by (subst string_of_nat.simps) (use digit_char_not_minus [of n] in auto)
  next
    case False
    have "n mod 10 < 10" by simp
    from digit_char_not_minus [OF this] 1 False show ?thesis
      by (subst string_of_nat.simps) auto
  qed
qed

lemma string_of_nat_inj: "string_of_nat n = string_of_nat m \<Longrightarrow> n = m"
proof (induction n arbitrary: m rule: string_of_nat.induct)
  case (1 n)
  show ?case
  proof (cases "n < 10")
    case n: True
    show ?thesis
    proof (cases "m < 10")
      case True
      with n "1.prems" show ?thesis
        by (simp add: string_of_nat.simps [of n] string_of_nat.simps [of m] digit_char_inj)
    next
      case False
      with n "1.prems" show ?thesis
        by (simp add: string_of_nat.simps [of n] string_of_nat.simps [of m]
            string_of_nat_not_Nil [THEN not_sym])
    qed
  next
    case n: False
    show ?thesis
    proof (cases "m < 10")
      case True
      with n "1.prems" show ?thesis
        by (simp add: string_of_nat.simps [of n] string_of_nat.simps [of m]
            string_of_nat_not_Nil)
    next
      case False
      with n "1.prems" have "string_of_nat (n div 10) = string_of_nat (m div 10)"
        and d: "digit_char (n mod 10) = digit_char (m mod 10)"
        by (simp_all add: string_of_nat.simps [of n] string_of_nat.simps [of m])
      with "1.IH" n have "n div 10 = m div 10" by blast
      moreover from d have "n mod 10 = m mod 10" by (intro digit_char_inj) simp_all
      ultimately show ?thesis by (metis div_mult_mod_eq)
    qed
  qed
qed

lemma string_of_int_inj: "string_of_int a = string_of_int b \<Longrightarrow> a = b"
proof -
  assume e: "string_of_int a = string_of_int b"
  have hd_nonneg: "hd (string_of_nat k) \<noteq> CHR ''-''" for k
    using string_of_nat_no_minus [of k] string_of_nat_not_Nil [of k]
    by (metis hd_in_set)
  show "a = b"
  proof (cases "a < 0")
    case a: True
    show ?thesis
    proof (cases "b < 0")
      case True
      with a e have "string_of_nat (nat (- a)) = string_of_nat (nat (- b))"
        by (simp add: string_of_int_def)
      then have "nat (- a) = nat (- b)" by (rule string_of_nat_inj)
      with a True show ?thesis by simp
    next
      case False
      with a e have "CHR ''-'' # string_of_nat (nat (- a)) = string_of_nat (nat b)"
        by (simp add: string_of_int_def)
      then have "hd (string_of_nat (nat b)) = CHR ''-''" by (metis list.sel(1))
      with hd_nonneg show ?thesis by blast
    qed
  next
    case a: False
    show ?thesis
    proof (cases "b < 0")
      case True
      with a e have "string_of_nat (nat a) = CHR ''-'' # string_of_nat (nat (- b))"
        by (simp add: string_of_int_def)
      then have "hd (string_of_nat (nat a)) = CHR ''-''" by (metis list.sel(1))
      with hd_nonneg show ?thesis by blast
    next
      case False
      with a e have "string_of_nat (nat a) = string_of_nat (nat b)"
        by (simp add: string_of_int_def)
      then have "nat a = nat b" by (rule string_of_nat_inj)
      with a False show ?thesis by simp
    qed
  qed
qed

lemma after_last:
  assumes "x \<notin> set v"
  shows "takeWhile (\<lambda>c. c \<noteq> x) (rev (u @ x # v)) = rev v"
proof -
  have "rev (u @ x # v) = rev v @ x # rev u" by simp
  moreover have "takeWhile (\<lambda>c. c \<noteq> x) (rev v @ x # rev u) =
      rev v @ takeWhile (\<lambda>c. c \<noteq> x) (x # rev u)"
    by (rule takeWhile_append2) (use assms in auto)
  ultimately show ?thesis by simp
qed

lemma split_at_last:
  assumes "x \<notin> set v" "x \<notin> set v'" "u @ x # v = u' @ x # v'"
  shows "u = u' \<and> v = v'"
proof -
  from after_last [OF assms(1), of u] after_last [OF assms(2), of u'] assms(3)
  have "rev v = rev v'" by simp
  then have v: "v = v'" by simp
  with assms(3) have "u = u'" by simp
  with v show ?thesis by simp
qed

lemma generateId_inj:
  "generateId t r = generateId t' r' \<longleftrightarrow> t = t' \<and> r = r'"
proof
  assume "generateId t r = generateId t' r'"
  then have "string_of_int t @ CHR ''-'' # string_of_nat r =
      string_of_int t' @ CHR ''-'' # string_of_nat r'"
    by (simp add: generateId_def)
  from split_at_last [OF string_of_nat_no_minus string_of_nat_no_minus this]
  show "t = t' \<and> r = r'" by (auto dest: string_of_int_inj string_of_nat_inj)
qed simp

text \<open>
  C2. Two calls of \<open>handleCreateNote\<close> that read the same millisecond and draw the same
  random number give their notes the same id.
\<close>

theorem create_twice_same_id:
  "map id_note (notes_of (app (run (\<lambda>k. 1700000000000) (\<lambda>k. 42) [CreateNote, CreateNote]))) =
     [''id-1700000000000-42'', ''id-1700000000000-42'']"
  by (simp add: eval_session)

theorem create_twice_same_id_witness:
  "\<not> distinct (map id_note (notes_of (app
      (run (\<lambda>k. 1700000000000) (\<lambda>k. 42) [CreateNote, CreateNote]))))"
  using create_twice_same_id by simp

end
